theory Spec2Isabelle
  imports Main "HOL-Library.Word"
begin

section \<open>Errors, workers and factories\<close>

text \<open>
  A Go \<open>error\<close> value is either an error made by a collaborator (\<open>Err\<close>) or one built by
  \<open>fmt.Errorf("<text>: %w", err)\<close>, which wraps the error it is given. The wrapped error
  is an \<open>error option\<close>: Go accepts a nil error as the \<open>%w\<close> operand, and the result then
  wraps nothing (\<open>Errorf text None\<close>). A nil \<open>error\<close> result of a call is \<open>None\<close>.
\<close>

datatype error = Err string | Errorf string "error option"

text \<open>
  \<open>worker.Worker[I, O]\<close>: an interface with the single method
  \<open>Execute(context.Context, I) (O, error)\<close>. A worker object is its identity together with
  its \<open>Execute\<close> method. The context argument is the error \<open>ctx.Err()\<close> reports (\<open>None\<close>
  until cancelled); the result is \<open>Inl err\<close> when the returned error is non-nil and
  \<open>Inr output\<close> otherwise.
\<close>

datatype ('i, 'o) worker =
  Worker (wid: nat) (Execute: "error option \<Rightarrow> 'i \<Rightarrow> error + 'o")

text \<open>
  \<open>worker.Factory[I, O]\<close>: an interface with \<open>Create() (Worker, error)\<close> and
  \<open>Destroy(Worker) error\<close>. A factory object carries a private state of any type \<open>'f\<close>, so
  that the outcome of a call may depend on the calls made before; each method is a
  function of that state returning its result and the new state.
\<close>

record ('w, 'f) factory =
  fstate :: 'f
  create_impl :: "'f \<Rightarrow> (error + 'w) \<times> 'f"
  destroy_impl :: "'w \<Rightarrow> 'f \<Rightarrow> error option \<times> 'f"

definition Create :: "('w, 'f) factory \<Rightarrow> (error + 'w) \<times> ('w, 'f) factory" where
  "Create fac = (case create_impl fac (fstate fac) of (r, s) \<Rightarrow> (r, fac\<lparr>fstate := s\<rparr>))"

definition Destroy :: "('w, 'f) factory \<Rightarrow> 'w \<Rightarrow> error option \<times> ('w, 'f) factory" where
  "Destroy fac w = (case destroy_impl fac w (fstate fac) of (r, s) \<Rightarrow> (r, fac\<lparr>fstate := s\<rparr>))"

section \<open>The pool\<close>

text \<open>
  Modelled from the spec: \<open>pool.Pool\<close> and \<open>pool.NewFixedSizedPool\<close> belong to the
  library \<open>ezPool\<close>, which is not part of the sources. The spec describes the pool as a
  fixed-capacity container of workers with \<open>Get() \<rightarrow> Worker\<close> (blocks if empty),
  \<open>Put(Worker) \<rightarrow> error\<close>, \<open>Avail() \<rightarrow> count\<close> (the number of available, non-borrowed
  workers) and \<open>Teardown() \<rightarrow> error\<close>.

  The model holds the available workers in a list. \<open>Get\<close> on an empty pool does not
  return, which is the value \<open>None\<close>. \<open>Put\<close> fails when the pool already holds as many
  workers as its capacity. The spec does not say when the pool's \<open>Teardown\<close> fails, so
  its result is a field of the pool (\<open>None\<close> in a freshly made pool). The capacity is a
  \<open>uint32\<close> in the source; it is always the widened \<open>uint16\<close> worker count, so the
  counts are natural numbers below \<open>2^16\<close> and no arithmetic on them wraps.
\<close>

record 'w pool =
  capacity :: nat
  items :: "'w list"
  teardown_result :: "error option"

text \<open>Modelled from the spec: a new pool of the given capacity holds no worker yet.\<close>

definition NewFixedSizedPool :: "32 word \<Rightarrow> 'w pool" where
  "NewFixedSizedPool n = \<lparr>capacity = unat n, items = [], teardown_result = None\<rparr>"

text \<open>Modelled from the spec: \<open>Avail()\<close>, the number of available workers.\<close>

definition Pool_Avail :: "'w pool \<Rightarrow> nat" where
  "Pool_Avail p = length (items p)"

text \<open>
  Modelled from the spec: \<open>Get()\<close> takes an available worker out of the pool, and
  blocks (\<open>None\<close>) while there is none.
\<close>

definition Pool_Get :: "'w pool \<Rightarrow> ('w \<times> 'w pool) option" where
  "Pool_Get p = (case items p of [] \<Rightarrow> None | w # ws \<Rightarrow> Some (w, p\<lparr>items := ws\<rparr>))"

text \<open>
  Modelled from the spec: \<open>Put(Worker)\<close> makes the worker available again, and returns
  an error when the pool is at its capacity.
\<close>

definition Pool_Put :: "'w \<Rightarrow> 'w pool \<Rightarrow> error + 'w pool" where
  "Pool_Put w p =
     (if length (items p) < capacity p then Inr (p\<lparr>items := items p @ [w]\<rparr>)
      else Inl (Err ''pool is full''))"

text \<open>Modelled from the spec: \<open>Teardown()\<close> of the pool returns the result the pool carries.\<close>

definition Pool_Teardown :: "'w pool \<Rightarrow> error option" where
  "Pool_Teardown p = teardown_result p"

section \<open>The executor\<close>

text \<open>
  Every call the executor makes on a collaborator, and every value it sends on a channel,
  is an event. Each operation returns the events it caused, oldest first, so that counts
  (how often \<open>Destroy\<close> ran) and orders (the result was written before the worker went
  back) can be read off. \<open>EvCreate\<close> carries what the call returned.
\<close>

datatype ('i, 'o) event =
  EvCreate "error + ('i, 'o) worker"
  | EvDestroy "('i, 'o) worker"
  | EvGet "('i, 'o) worker"
  | EvPut "('i, 'o) worker"
  | EvPoolTeardown
  | EvExecute "('i, 'o) worker" 'i
  | EvSendOut 'o
  | EvSendErr error
  | EvSpawn "('i, 'o) worker" 'i

text \<open>
  The struct \<open>executor\<close>. \<open>workerPool\<close> and \<open>workerFactory\<close> hold the state of the pool and
  factory objects the struct points to; \<open>cancelContext\<close> holds what \<open>ctx.Err()\<close> returns,
  \<open>None\<close> until the context is cancelled. The three channel fields are handles to
  channels owned by the caller: a send on \<open>outputChannel\<close> or \<open>errorChannel\<close> is the event
  \<open>EvSendOut\<close> or \<open>EvSendErr\<close>, and what a receive on \<open>inputChannel\<close> yields is an input
  of the dispatch loop.
\<close>

record ('i, 'o, 'f) executor =
  workerPool :: "('i, 'o) worker pool"
  cancelContext :: "error option"
  workerFactory :: "(('i, 'o) worker, 'f) factory"

subsection \<open>New\<close>

text \<open>
  The population loop \<open>for i := 0; i < int(workerCount); i++\<close> of \<open>New\<close>. The result is
  the pair \<open>(Executor, error)\<close> that \<open>New\<close> returns (\<open>None\<close> is nil), the factory object as
  the calls left it, and the events.
\<close>

function populate ::
  "nat \<Rightarrow> nat \<Rightarrow> ('i, 'o, 'f) executor \<Rightarrow>
     (('i, 'o, 'f) executor option \<times> error option) \<times> (('i, 'o) worker, 'f) factory
       \<times> ('i, 'o) event list"
where
  "populate i n e =
     (if i < n then
        (case Create (workerFactory e) of
           (Inl err, fac) \<Rightarrow> ((None, Some err), fac, [EvCreate (Inl err)])
         | (Inr wrkr, fac) \<Rightarrow>
             (case Pool_Put wrkr (workerPool e) of
                Inl err \<Rightarrow> ((None, Some err), fac, [EvCreate (Inr wrkr), EvPut wrkr])
              | Inr p \<Rightarrow>
                  (case populate (i + 1) n (e\<lparr>workerFactory := fac, workerPool := p\<rparr>) of
                     (r, fac', evs) \<Rightarrow> (r, fac', [EvCreate (Inr wrkr), EvPut wrkr] @ evs))))
      else ((Some e, None), workerFactory e, []))"
  by pat_completeness auto
termination
  by (relation "measure (\<lambda>(i, n, e). n - i)") auto

definition New ::
  "error option \<Rightarrow> (('i, 'o) worker, 'f) factory \<Rightarrow> 16 word \<Rightarrow>
     (('i, 'o, 'f) executor option \<times> error option) \<times> (('i, 'o) worker, 'f) factory
       \<times> ('i, 'o) event list"
where
  "New ctx fac workerCount =
     populate 0 (unat workerCount)
       \<lparr>workerPool = NewFixedSizedPool (ucast workerCount),
        cancelContext = ctx,
        workerFactory = fac\<rparr>"

subsection \<open>Teardown\<close>

text \<open>
  The loop \<open>for i := uint32(0); i < e.workerPool.Avail(); i++\<close> of \<open>Teardown\<close>, followed by
  the teardown of the pool. The condition calls \<open>Avail\<close> again on every round. The result
  is \<open>None\<close> when a call of \<open>Get\<close> does not return, and otherwise the error \<open>Teardown\<close>
  returns (\<open>None\<close> is nil), the executor as the calls left it, and the events.
\<close>

function teardown_loop ::
  "nat \<Rightarrow> ('i, 'o, 'f) executor \<Rightarrow>
     (error option \<times> ('i, 'o, 'f) executor \<times> ('i, 'o) event list) option"
where
  "teardown_loop i e =
     (if i < Pool_Avail (workerPool e) then
        (case Pool_Get (workerPool e) of
           None \<Rightarrow> None
         | Some (wrkr, p) \<Rightarrow>
             (case Destroy (workerFactory e) wrkr of
                (Some err, fac) \<Rightarrow>
                  Some (Some (Errorf ''failed to destroy worker'' (Some err)),
                        e\<lparr>workerPool := p, workerFactory := fac\<rparr>,
                        [EvGet wrkr, EvDestroy wrkr])
              | (None, fac) \<Rightarrow>
                  (case teardown_loop (i + 1) (e\<lparr>workerPool := p, workerFactory := fac\<rparr>) of
                     None \<Rightarrow> None
                   | Some (r, e', evs) \<Rightarrow> Some (r, e', [EvGet wrkr, EvDestroy wrkr] @ evs))))
      else
        (case Pool_Teardown (workerPool e) of
           Some err \<Rightarrow>
             Some (Some (Errorf ''failed to teardown worker pool'' (Some err)), e,
                   [EvPoolTeardown])
         | None \<Rightarrow> Some (None, e, [EvPoolTeardown])))"
  by pat_completeness auto
termination
  by (relation "measure (\<lambda>(i, e). Pool_Avail (workerPool e) - i)")
     (auto simp: Pool_Avail_def Pool_Get_def split: list.splits)

definition Teardown ::
  "('i, 'o, 'f) executor \<Rightarrow>
     (error option \<times> ('i, 'o, 'f) executor \<times> ('i, 'o) event list) option"
where
  "Teardown e = teardown_loop 0 e"

subsection \<open>The execution unit of one task\<close>

text \<open>
  The goroutine \<open>go func(msg I, w worker.Worker[I, O], e *executor[I, O])\<close> that \<open>Run\<close>
  starts for a task. \<open>task_body\<close> is its body: the call of \<open>Execute\<close> and the send of the
  error or of the output. A send is taken to complete (the caller reads both channels).
\<close>

definition task_body ::
  "('i, 'o) worker \<Rightarrow> 'i \<Rightarrow> ('i, 'o, 'f) executor \<Rightarrow> ('i, 'o) event list"
where
  "task_body w msg e =
     (case Execute w (cancelContext e) msg of
        Inl err \<Rightarrow> [EvExecute w msg, EvSendErr err]
      | Inr output \<Rightarrow> [EvExecute w msg, EvSendOut output])"

text \<open>
  The deferred function of the goroutine. The first component of the result is the value
  the goroutine panics with, \<open>None\<close> when it returns normally. The variable that receives
  the result of \<open>Teardown\<close> is called \<open>putErr\<close> in the source, and both panics wrap it.
\<close>

definition task_deferred ::
  "('i, 'o) worker \<Rightarrow> ('i, 'o, 'f) executor \<Rightarrow>
     (error option \<times> ('i, 'o, 'f) executor \<times> ('i, 'o) event list) option"
where
  "task_deferred w e =
     (case Pool_Put w (workerPool e) of
        Inr p \<Rightarrow> Some (None, e\<lparr>workerPool := p\<rparr>, [EvPut w])
      | Inl err \<Rightarrow>
          (case Teardown e of
             None \<Rightarrow> None
           | Some (putErr, e', evs) \<Rightarrow>
               (if putErr \<noteq> None then
                  Some (Some (Errorf ''failed to teardown executor'' putErr), e', EvPut w # evs)
                else
                  Some (Some (Errorf ''failed to put worker back into pool'' putErr), e',
                        EvPut w # evs))))"

definition task ::
  "('i, 'o) worker \<Rightarrow> 'i \<Rightarrow> ('i, 'o, 'f) executor \<Rightarrow>
     (error option \<times> ('i, 'o, 'f) executor \<times> ('i, 'o) event list) option"
where
  "task w msg e =
     (case task_deferred w e of
        None \<Rightarrow> None
      | Some (pv, e', evs) \<Rightarrow> Some (pv, e', task_body w msg e @ evs))"

subsection \<open>Run: the dispatch loop and its goroutines\<close>

text \<open>
  The running program is the dispatch loop of \<open>Run\<close> together with the execution units it
  has started. \<open>pc\<close> says where the loop is: waiting in its \<open>select\<close>, waiting in
  \<open>workerPool.Get()\<close> with the message it has received, or gone. \<open>inflight\<close> lists the
  units that were started and have not finished, each with its worker and message.
  \<open>panicked\<close> is the value of the panic that stopped the process, if one did. \<open>trace\<close>
  collects the events of all goroutines in the order they happened.
\<close>

datatype 'i loop_pc = AtSelect | AtGet 'i | Exited

record ('i, 'o, 'f) proc =
  exec :: "('i, 'o, 'f) executor"
  pc :: "'i loop_pc"
  inflight :: "(('i, 'o) worker \<times> 'i) list"
  panicked :: "error option"
  trace :: "('i, 'o) event list"

definition Run :: "('i, 'o, 'f) executor \<Rightarrow> ('i, 'o, 'f) proc" where
  "Run e = \<lparr>exec = e, pc = AtSelect, inflight = [], panicked = None, trace = []\<rparr>"

text \<open>
  The end of both shutdown paths of the loop:
  \<open>err := e.Teardown(); if err != nil { panic(fmt.Errorf(..., err)) }; return\<close>.
\<close>

definition teardown_and_return ::
  "('i, 'o) event list \<Rightarrow> ('i, 'o, 'f) proc \<Rightarrow> ('i, 'o, 'f) proc option"
where
  "teardown_and_return pre s =
     (case Teardown (exec s) of
        None \<Rightarrow> None
      | Some (err, e', evs) \<Rightarrow>
          Some (s\<lparr>exec := e', pc := Exited,
                  panicked := (if err \<noteq> None
                               then Some (Errorf ''failed to teardown executor'' err)
                               else None),
                  trace := trace s @ pre @ evs\<rparr>))"

text \<open>\<open>case <-e.cancelContext.Done()\<close>, where \<open>cerr\<close> is what \<open>e.cancelContext.Err()\<close> returns.\<close>

definition on_done :: "error \<Rightarrow> ('i, 'o, 'f) proc \<Rightarrow> ('i, 'o, 'f) proc option" where
  "on_done cerr s = teardown_and_return [EvSendErr cerr] s"

text \<open>
  \<open>wrkr := e.workerPool.Get()\<close> and the \<open>go\<close> statement after it. While the pool is empty
  the loop waits in \<open>Get\<close>, holding the message.
\<close>

definition get_worker :: "'i \<Rightarrow> ('i, 'o, 'f) proc \<Rightarrow> ('i, 'o, 'f) proc" where
  "get_worker msg s =
     (case Pool_Get (workerPool (exec s)) of
        None \<Rightarrow> s\<lparr>pc := AtGet msg\<rparr>
      | Some (wrkr, p) \<Rightarrow>
          s\<lparr>exec := (exec s)\<lparr>workerPool := p\<rparr>, pc := AtSelect,
            inflight := inflight s @ [(wrkr, msg)],
            trace := trace s @ [EvGet wrkr, EvSpawn wrkr msg]\<rparr>)"

text \<open>
  \<open>case msg, closed := <-e.inputChannel\<close>. The two arguments are the two results of the
  receive, under the names the source gives them.
\<close>

definition on_recv :: "'i \<Rightarrow> bool \<Rightarrow> ('i, 'o, 'f) proc \<Rightarrow> ('i, 'o, 'f) proc option" where
  "on_recv msg closed s =
     (if closed then teardown_and_return [] s else Some (get_worker msg s))"

text \<open>The unit at position \<open>k\<close> of \<open>inflight\<close> runs to its end.\<close>

definition finish :: "nat \<Rightarrow> ('i, 'o, 'f) proc \<Rightarrow> ('i, 'o, 'f) proc option" where
  "finish k s =
     (case inflight s ! k of
        (w, msg) \<Rightarrow>
          (case task w msg (exec s) of
             None \<Rightarrow> None
           | Some (pv, e', evs) \<Rightarrow>
               Some (s\<lparr>exec := e',
                       inflight := take k (inflight s) @ drop (Suc k) (inflight s),
                       panicked := pv,
                       trace := trace s @ evs\<rparr>)))"

text \<open>
  What can happen next. \<open>Cancel err\<close>: the owner of the context cancels it. \<open>SelectDone\<close>
  and \<open>SelectRecv msg ok\<close>: the \<open>select\<close> of the loop takes its first or its second case,
  the receive yielding the pair \<open>(msg, ok)\<close>. \<open>Resume\<close>: the loop, waiting in \<open>Get\<close>, looks
  at the pool again. \<open>Finish k\<close>: an execution unit runs to its end. \<open>CallTeardown\<close>:
  the owner of the executor calls its public method \<open>Teardown\<close>, whose result goes to
  the caller. A call of \<open>Teardown\<close> is taken as one step. An action that is not
  possible in a state leaves it as it is, and nothing happens after a panic. A step is
  \<open>None\<close> when the goroutine taking it never returns from a call.

  Go's receive with two results, \<open>v, ok := <-ch\<close>, sets \<open>ok\<close> to true when \<open>v\<close> was
  delivered by a send, and to false when \<open>v\<close> is the zero value produced because the
  channel is closed and empty. \<open>recv_value\<close> and \<open>recv_closed\<close> are these two outcomes.
\<close>

datatype 'i action =
  Cancel error | SelectDone | SelectRecv 'i bool | Resume | Finish nat | CallTeardown

definition recv_value :: "'i \<Rightarrow> 'i action" where
  "recv_value v = SelectRecv v True"

definition recv_closed :: "'i \<Rightarrow> 'i action" where
  "recv_closed zero = SelectRecv zero False"

definition step :: "'i action \<Rightarrow> ('i, 'o, 'f) proc \<Rightarrow> ('i, 'o, 'f) proc option" where
  "step a s =
     (if panicked s \<noteq> None then Some s
      else
        (case a of
           Cancel err \<Rightarrow>
             (case cancelContext (exec s) of
                None \<Rightarrow> Some (s\<lparr>exec := (exec s)\<lparr>cancelContext := Some err\<rparr>\<rparr>)
              | Some _ \<Rightarrow> Some s)
         | SelectDone \<Rightarrow>
             (case pc s of
                AtSelect \<Rightarrow>
                  (case cancelContext (exec s) of
                     None \<Rightarrow> Some s
                   | Some cerr \<Rightarrow> on_done cerr s)
              | _ \<Rightarrow> Some s)
         | SelectRecv msg ok \<Rightarrow>
             (case pc s of AtSelect \<Rightarrow> on_recv msg ok s | _ \<Rightarrow> Some s)
         | Resume \<Rightarrow>
             (case pc s of AtGet msg \<Rightarrow> Some (get_worker msg s) | _ \<Rightarrow> Some s)
         | Finish k \<Rightarrow>
             (if k < length (inflight s) then finish k s else Some s)
         | CallTeardown \<Rightarrow>
             (case Teardown (exec s) of
                None \<Rightarrow> None
              | Some (err, e', evs) \<Rightarrow> Some (s\<lparr>exec := e', trace := trace s @ evs\<rparr>))))"

fun run :: "('i, 'o, 'f) proc \<Rightarrow> 'i action list \<Rightarrow> ('i, 'o, 'f) proc option" where
  "run s [] = Some s"
| "run s (a # as) = (case step a s of None \<Rightarrow> None | Some s' \<Rightarrow> run s' as)"

subsection \<open>Kinds of events\<close>

fun is_result :: "('i, 'o) event \<Rightarrow> bool" where
  "is_result (EvSendOut _) = True"
| "is_result (EvSendErr _) = True"
| "is_result _ = False"

fun is_put :: "('i, 'o) event \<Rightarrow> bool" where
  "is_put (EvPut _) = True"
| "is_put _ = False"

fun is_destroy :: "('i, 'o) event \<Rightarrow> bool" where
  "is_destroy (EvDestroy _) = True"
| "is_destroy _ = False"

fun is_spawn :: "('i, 'o) event \<Rightarrow> bool" where
  "is_spawn (EvSpawn _ _) = True"
| "is_spawn _ = False"

text \<open>The events \<open>Teardown\<close> can cause: taking a worker, destroying one, the pool's teardown.\<close>

fun is_teardown_event :: "('i, 'o) event \<Rightarrow> bool" where
  "is_teardown_event (EvGet _) = True"
| "is_teardown_event (EvDestroy _) = True"
| "is_teardown_event EvPoolTeardown = True"
| "is_teardown_event _ = False"

subsection \<open>Example collaborators\<close>

text \<open>Concrete workers, factories and executors, on which the theorems below are run.\<close>

definition ok_worker :: "nat \<Rightarrow> (nat, nat) worker" where
  "ok_worker k = Worker k (\<lambda>ctx x. Inr (x + 1))"

definition failing_worker :: "nat \<Rightarrow> (nat, nat) worker" where
  "failing_worker k = Worker k (\<lambda>ctx x. Inl (Err ''task failed''))"

text \<open>
  Two factories whose state counts the calls made so far: first the calls of \<open>Create\<close>,
  then those of \<open>Destroy\<close>. \<open>Destroy\<close> always succeeds. In \<open>flaky_factory\<close> the second
  call of \<open>Create\<close> fails; in \<open>plain_factory\<close> none does.
\<close>

definition flaky_factory :: "((nat, nat) worker, nat \<times> nat) factory" where
  "flaky_factory =
     \<lparr>fstate = (0, 0),
      create_impl = (\<lambda>(c, d). (if c = 1 then Inl (Err ''no more workers'')
                                else Inr (ok_worker c),
                               (c + 1, d))),
      destroy_impl = (\<lambda>w (c, d). (None, (c, d + 1)))\<rparr>"

definition plain_factory :: "((nat, nat) worker, nat \<times> nat) factory" where
  "plain_factory =
     \<lparr>fstate = (0, 0),
      create_impl = (\<lambda>(c, d). (Inr (ok_worker c), (c + 1, d))),
      destroy_impl = (\<lambda>w (c, d). (None, (c, d + 1)))\<rparr>"

text \<open>
  An executor whose pool of capacity two holds both of its workers: the one that \<open>New\<close>
  builds from \<open>plain_factory\<close> for two workers.
\<close>

definition two_idle :: "(nat, nat, nat \<times> nat) executor" where
  "two_idle =
     \<lparr>workerPool = \<lparr>capacity = 2, items = [ok_worker 0, ok_worker 1], teardown_result = None\<rparr>,
      cancelContext = None,
      workerFactory = plain_factory\<lparr>fstate := (2, 0)\<rparr>\<rparr>"

text \<open>An executor whose pool of capacity one holds its worker, so that the pool is full.\<close>

definition one_idle :: "(nat, nat, nat \<times> nat) executor" where
  "one_idle =
     \<lparr>workerPool = \<lparr>capacity = 1, items = [ok_worker 0], teardown_result = None\<rparr>,
      cancelContext = None,
      workerFactory = plain_factory\<lparr>fstate := (1, 0)\<rparr>\<rparr>"

text \<open>An executor whose pool of capacity one is empty: its worker is borrowed.\<close>

definition one_borrowed :: "(nat, nat, nat \<times> nat) executor" where
  "one_borrowed =
     \<lparr>workerPool = \<lparr>capacity = 1, items = [], teardown_result = None\<rparr>,
      cancelContext = None,
      workerFactory = plain_factory\<lparr>fstate := (1, 0)\<rparr>\<rparr>"

text \<open>The program after \<open>Run\<close> on an executor with one idle worker and a cancelled context.\<close>

definition cancelled_run :: "(nat, nat, nat \<times> nat) proc" where
  "cancelled_run = Run (one_idle\<lparr>cancelContext := Some (Err ''context canceled'')\<rparr>)"

section \<open>Properties\<close>

declare populate.simps [simp del]
declare teardown_loop.simps [simp del]

subsection \<open>Construction\<close>

lemma populate_create_failure:
  "populate i n e = (r, fac', evs) \<Longrightarrow> EvCreate (Inl err) \<in> set evs \<Longrightarrow>
     r = (None, Some err) \<and> last evs = EvCreate (Inl err)"
proof (induction i n e arbitrary: r fac' evs rule: populate.induct)
  case (1 i n e)
  show ?case
  proof (cases "i < n")
    case False
    with "1.prems" show ?thesis by (simp add: populate.simps)
  next
    case lt: True
    obtain cr fac where c: "Create (workerFactory e) = (cr, fac)"
      by (cases "Create (workerFactory e)")
    show ?thesis
    proof (cases cr)
      case (Inl x)
      with "1.prems" lt c show ?thesis by (auto simp add: populate.simps)
    next
      case (Inr wrkr)
      show ?thesis
      proof (cases "Pool_Put wrkr (workerPool e)")
        case (Inl x)
        with "1.prems" lt c Inr show ?thesis by (auto simp add: populate.simps)
      next
        case (Inr p)
        obtain r2 fac2 evs2
          where rec: "populate (i + 1) n (e\<lparr>workerFactory := fac, workerPool := p\<rparr>)
                        = (r2, fac2, evs2)"
          by (metis prod_cases3)
        from "1.prems"(1) lt c \<open>cr = Inr wrkr\<close> Inr rec
        have eq: "r = r2" "evs = [EvCreate (Inr wrkr), EvPut wrkr] @ evs2"
          by (simp_all add: populate.simps)
        with "1.prems"(2) have mem: "EvCreate (Inl err) \<in> set evs2" by simp
        from "1.IH"[OF lt c[symmetric] \<open>cr = Inr wrkr\<close> Inr rec mem]
        have "r2 = (None, Some err) \<and> last evs2 = EvCreate (Inl err)" .
        moreover from mem have "evs2 \<noteq> []" by auto
        ultimately show ?thesis using eq by simp
      qed
    qed
  qed
qed

lemma populate_no_destroy:
  "populate i n e = (r, fac', evs) \<Longrightarrow> filter is_destroy evs = []"
proof (induction i n e arbitrary: r fac' evs rule: populate.induct)
  case (1 i n e)
  from "1.prems" show ?case
    by (subst (asm) populate.simps)
       (auto split: if_splits prod.splits sum.splits dest: "1.IH")
qed

lemma New_flaky_factory:
  "New None flaky_factory 3 =
     ((None, Some (Err ''no more workers'')), flaky_factory\<lparr>fstate := (2, 0)\<rparr>,
      [EvCreate (Inr (ok_worker 0)), EvPut (ok_worker 0),
       EvCreate (Inl (Err ''no more workers''))])"
  by (simp add: New_def populate.simps flaky_factory_def Create_def Pool_Put_def
        NewFixedSizedPool_def)

lemma populate_success:
  "populate i n e = ((Some e', None), fac', evs) \<Longrightarrow>
     capacity (workerPool e') = capacity (workerPool e)
     \<and> Pool_Avail (workerPool e') = Pool_Avail (workerPool e) + (n - i)"
proof (induction i n e arbitrary: e' fac' evs rule: populate.induct)
  case (1 i n e)
  show ?case
  proof (cases "i < n")
    case False
    with "1.prems" show ?thesis by (simp add: populate.simps)
  next
    case lt: True
    obtain cr fac where c: "Create (workerFactory e) = (cr, fac)"
      by (cases "Create (workerFactory e)")
    show ?thesis
    proof (cases cr)
      case (Inl x)
      with "1.prems" lt c show ?thesis by (simp add: populate.simps)
    next
      case (Inr wrkr)
      show ?thesis
      proof (cases "Pool_Put wrkr (workerPool e)")
        case (Inl x)
        with "1.prems" lt c Inr show ?thesis by (simp add: populate.simps)
      next
        case (Inr p)
        obtain r2 fac2 evs2
          where rec: "populate (i + 1) n (e\<lparr>workerFactory := fac, workerPool := p\<rparr>)
                        = (r2, fac2, evs2)"
          by (metis prod_cases3)
        from "1.prems"(1) lt c \<open>cr = Inr wrkr\<close> Inr rec
        have eq: "r2 = (Some e', None)"
          by (simp add: populate.simps)
        from "1.IH"[OF lt c[symmetric] \<open>cr = Inr wrkr\<close> Inr rec[unfolded eq]]
        have "capacity (workerPool e') = capacity p
              \<and> Pool_Avail (workerPool e') = Pool_Avail p + (n - (i + 1))"
          by simp
        moreover from Inr have "capacity p = capacity (workerPool e)"
          "Pool_Avail p = Pool_Avail (workerPool e) + 1"
          by (auto simp: Pool_Put_def Pool_Avail_def split: if_splits)
        ultimately show ?thesis using lt by simp
      qed
    qed
  qed
qed

lemma New_success:
  assumes "New ctx fac workerCount = ((Some e, None), fac', evs)"
  shows "capacity (workerPool e) = unat workerCount
         \<and> Pool_Avail (workerPool e) = unat workerCount"
proof -
  have "unat workerCount < 2 ^ 16"
    using unsigned_less[of workerCount, where ?'a = nat] by simp
  then have "unat workerCount < 2 ^ 32" by simp
  then have "unat (ucast workerCount :: 32 word) = unat workerCount"
    by (simp add: unsigned_ucast_eq take_bit_nat_eq_self)
  with populate_success[OF assms[unfolded New_def]] show ?thesis
    by (simp add: NewFixedSizedPool_def Pool_Avail_def)
qed

lemma New_plain_factory:
  "New None plain_factory 2 =
     ((Some two_idle, None), plain_factory\<lparr>fstate := (2, 0)\<rparr>,
      [EvCreate (Inr (ok_worker 0)), EvPut (ok_worker 0),
       EvCreate (Inr (ok_worker 1)), EvPut (ok_worker 1)])"
  by (simp add: New_def populate.simps plain_factory_def Create_def Pool_Put_def
        NewFixedSizedPool_def two_idle_def)

text \<open>
  C7: whatever the factory and the worker count, if a call of \<open>Create\<close> made by \<open>New\<close>
  fails with an error, then \<open>New\<close> returns a nil executor together with exactly that
  error, and the failed call is the last thing \<open>New\<close> did.
\<close>

theorem New_create_failure:
  assumes "New ctx fac workerCount = (r, fac', evs)"
    and "EvCreate (Inl err) \<in> set evs"
  shows "r = (None, Some err) \<and> last evs = EvCreate (Inl err)"
  using assms unfolding New_def by (rule populate_create_failure)

text \<open>The factory that fails on the second of three workers.\<close>

theorem New_create_failure_witness:
  "New None flaky_factory 3 =
     ((None, Some (Err ''no more workers'')), flaky_factory\<lparr>fstate := (2, 0)\<rparr>,
      [EvCreate (Inr (ok_worker 0)), EvPut (ok_worker 0),
       EvCreate (Inl (Err ''no more workers''))])
   \<and> EvCreate (Inl (Err ''no more workers''))
       \<in> set [EvCreate (Inr (ok_worker 0)), EvPut (ok_worker 0),
              EvCreate (Inl (Err ''no more workers''))]
   \<and> fst (New None flaky_factory 3) = (None, Some (Err ''no more workers''))
   \<and> last (snd (snd (New None flaky_factory 3))) = EvCreate (Inl (Err ''no more workers''))"
proof -
  have mem: "EvCreate (Inl (Err ''no more workers''))
       \<in> set [EvCreate (Inr (ok_worker 0)), EvPut (ok_worker 0),
              EvCreate (Inl (Err ''no more workers'')) :: (nat, nat) event]"
    by simp
  from New_create_failure [OF New_flaky_factory mem] New_flaky_factory mem
  show ?thesis by simp
qed

text \<open>
  C8: \<open>New\<close> never calls \<open>Destroy\<close>: whatever the factory and the worker count, no
  \<open>Destroy\<close> is among its events. In particular, when a call of \<open>Create\<close> fails after
  other calls have made workers, \<open>New\<close> returns the error and the workers made so far
  are not destroyed.
\<close>

theorem New_never_destroys:
  assumes "New ctx fac workerCount = (r, fac', evs)"
  shows "filter is_destroy evs = []
         \<and> (EvCreate (Inl err) \<in> set evs \<longrightarrow> r = (None, Some err))"
proof -
  from assms have "filter is_destroy evs = []"
    unfolding New_def by (rule populate_no_destroy)
  moreover have "r = (None, Some err)" if "EvCreate (Inl err) \<in> set evs"
    using populate_create_failure[OF assms[unfolded New_def] that] by simp
  ultimately show ?thesis by simp
qed

text \<open>
  The factory that fails on the second of three workers: worker 0 was made and put into
  the pool, and the factory has seen two calls of \<open>Create\<close> and none of \<open>Destroy\<close>.
\<close>

theorem New_never_destroys_witness:
  "New None flaky_factory 3 =
     ((None, Some (Err ''no more workers'')), flaky_factory\<lparr>fstate := (2, 0)\<rparr>,
      [EvCreate (Inr (ok_worker 0)), EvPut (ok_worker 0),
       EvCreate (Inl (Err ''no more workers''))])
   \<and> EvCreate (Inl (Err ''no more workers''))
       \<in> set [EvCreate (Inr (ok_worker 0)), EvPut (ok_worker 0),
              EvCreate (Inl (Err ''no more workers''))]
   \<and> filter is_destroy
        [EvCreate (Inr (ok_worker 0)), EvPut (ok_worker 0),
         EvCreate (Inl (Err ''no more workers''))] = []"
proof -
  have mem: "EvCreate (Inl (Err ''no more workers''))
       \<in> set [EvCreate (Inr (ok_worker 0)), EvPut (ok_worker 0),
              EvCreate (Inl (Err ''no more workers'')) :: (nat, nat) event]"
    by simp
  from New_never_destroys [OF New_flaky_factory, of "Err ''no more workers''"]
    New_flaky_factory mem
  show ?thesis by simp
qed

text \<open>
  C10: with a worker count of zero \<open>New\<close> succeeds for every factory: it returns an
  executor over an empty pool of capacity zero and a nil error, and it makes no call at
  all, so \<open>Create\<close> is not invoked and the factory is as it was.
\<close>

theorem New_zero_workers:
  "New ctx fac 0 =
     ((Some \<lparr>workerPool = \<lparr>capacity = 0, items = [], teardown_result = None\<rparr>,
             cancelContext = ctx, workerFactory = fac\<rparr>, None),
      fac, [])"
  by (simp add: New_def populate.simps NewFixedSizedPool_def)

subsection \<open>Teardown\<close>

lemma Pool_Get_Some:
  "i < Pool_Avail p \<Longrightarrow>
     \<exists>w ws. items p = w # ws \<and> Pool_Get p = Some (w, p\<lparr>items := ws\<rparr>)"
  by (cases "items p") (simp_all add: Pool_Avail_def Pool_Get_def)

lemma Destroy_impl:
  "Destroy fac w = (d, fac') \<Longrightarrow>
     destroy_impl fac' = destroy_impl fac \<and> d = fst (destroy_impl fac w (fstate fac))"
  by (auto simp: Destroy_def split: prod.splits)

text \<open>The three ways a round of the loop of \<open>Teardown\<close> can go.\<close>

lemma teardown_loop_stop:
  "\<not> i < Pool_Avail (workerPool e) \<Longrightarrow>
     teardown_loop i e =
       (case Pool_Teardown (workerPool e) of
          Some err \<Rightarrow>
            Some (Some (Errorf ''failed to teardown worker pool'' (Some err)), e,
                  [EvPoolTeardown])
        | None \<Rightarrow> Some (None, e, [EvPoolTeardown]))"
  by (subst teardown_loop.simps) simp

lemma teardown_loop_fail:
  "i < Pool_Avail (workerPool e) \<Longrightarrow> Pool_Get (workerPool e) = Some (w, p) \<Longrightarrow>
   Destroy (workerFactory e) w = (Some err, fac) \<Longrightarrow>
     teardown_loop i e =
       Some (Some (Errorf ''failed to destroy worker'' (Some err)),
             e\<lparr>workerPool := p, workerFactory := fac\<rparr>, [EvGet w, EvDestroy w])"
  by (subst teardown_loop.simps) simp

lemma teardown_loop_next:
  "i < Pool_Avail (workerPool e) \<Longrightarrow> Pool_Get (workerPool e) = Some (w, p) \<Longrightarrow>
   Destroy (workerFactory e) w = (None, fac) \<Longrightarrow>
     teardown_loop i e =
       (case teardown_loop (i + 1) (e\<lparr>workerPool := p, workerFactory := fac\<rparr>) of
          None \<Rightarrow> None
        | Some (r, e', evs) \<Rightarrow> Some (r, e', [EvGet w, EvDestroy w] @ evs))"
  by (subst teardown_loop.simps) simp


text \<open>
  \<open>Teardown\<close> always returns: the guard \<open>i < Avail()\<close> keeps \<open>Get\<close> from waiting. Its
  events are calls of \<open>Get\<close>, \<open>Destroy\<close> and the pool's \<open>Teardown\<close> only; it leaves the
  capacity of the pool and the context alone and never adds a worker to the pool.
\<close>

lemma teardown_loop_props:
  "\<exists>r e' evs. teardown_loop i e = Some (r, e', evs)
     \<and> filter (\<lambda>ev. \<not> is_teardown_event ev) evs = []
     \<and> capacity (workerPool e') = capacity (workerPool e)
     \<and> Pool_Avail (workerPool e') \<le> Pool_Avail (workerPool e)
     \<and> cancelContext e' = cancelContext e"
proof (induction i e rule: teardown_loop.induct)
  case (1 i e)
  show ?case
  proof (cases "i < Pool_Avail (workerPool e)")
    case False
    then show ?thesis by (simp add: teardown_loop_stop split: option.splits)
  next
    case lt: True
    from Pool_Get_Some[OF lt] obtain w ws
      where it: "items (workerPool e) = w # ws"
        and g: "Pool_Get (workerPool e) = Some (w, (workerPool e)\<lparr>items := ws\<rparr>)"
      by blast
    obtain d fac where d: "Destroy (workerFactory e) w = (d, fac)"
      by (cases "Destroy (workerFactory e) w")
    show ?thesis
    proof (cases d)
      case (Some err)
      with d have "Destroy (workerFactory e) w = (Some err, fac)" by simp
      from teardown_loop_fail[OF lt g this] it show ?thesis by (simp add: Pool_Avail_def)
    next
      case None
      let ?e = "e\<lparr>workerPool := (workerPool e)\<lparr>items := ws\<rparr>, workerFactory := fac\<rparr>"
      from "1.IH"[OF lt g refl d[symmetric] None]
      obtain r e' evs where rec: "teardown_loop (i + 1) ?e = Some (r, e', evs)"
        and p: "filter (\<lambda>ev. \<not> is_teardown_event ev) evs = []"
          "capacity (workerPool e') = capacity (workerPool ?e)"
          "Pool_Avail (workerPool e') \<le> Pool_Avail (workerPool ?e)"
          "cancelContext e' = cancelContext ?e"
        by blast
      from d None have "Destroy (workerFactory e) w = (None, fac)" by simp
      from teardown_loop_next[OF lt g this] rec
      have res: "teardown_loop i e = Some (r, e', [EvGet w, EvDestroy w] @ evs)"
        by simp
      from p it show ?thesis unfolding res by (simp add: Pool_Avail_def)
    qed
  qed
qed

text \<open>
  When a \<open>Destroy\<close> fails, \<open>Teardown\<close> returns at once: the failed call is its last event
  and the pool's own teardown is not among its events.
\<close>

lemma teardown_loop_destroy_failure:
  "teardown_loop i e = Some (Some (Errorf ''failed to destroy worker'' x), e', evs) \<Longrightarrow>
     filter (\<lambda>ev. ev = EvPoolTeardown) evs = [] \<and> (\<exists>w. last evs = EvDestroy w)"
proof (induction i e arbitrary: evs rule: teardown_loop.induct)
  case (1 i e)
  show ?case
  proof (cases "i < Pool_Avail (workerPool e)")
    case False
    with "1.prems" show ?thesis by (simp add: teardown_loop_stop split: option.splits)
  next
    case lt: True
    from Pool_Get_Some[OF lt] obtain w ws
      where g: "Pool_Get (workerPool e) = Some (w, (workerPool e)\<lparr>items := ws\<rparr>)"
      by blast
    obtain d fac where d: "Destroy (workerFactory e) w = (d, fac)"
      by (cases "Destroy (workerFactory e) w")
    show ?thesis
    proof (cases d)
      case (Some err)
      with d have "Destroy (workerFactory e) w = (Some err, fac)" by simp
      from teardown_loop_fail[OF lt g this] "1.prems" show ?thesis by auto
    next
      case None
      let ?e = "e\<lparr>workerPool := (workerPool e)\<lparr>items := ws\<rparr>, workerFactory := fac\<rparr>"
      from d None have dn: "Destroy (workerFactory e) w = (None, fac)" by simp
      from teardown_loop_next[OF lt g dn] "1.prems" obtain evs2
        where rec: "teardown_loop (i + 1) ?e
                      = Some (Some (Errorf ''failed to destroy worker'' x), e', evs2)"
          and evs: "evs = [EvGet w, EvDestroy w] @ evs2"
        by (auto split: option.splits)
      from "1.IH"[OF lt g refl d[symmetric] None rec]
      have "filter (\<lambda>ev. ev = EvPoolTeardown) evs2 = [] \<and> (\<exists>w. last evs2 = EvDestroy w)" .
      then show ?thesis unfolding evs by auto
    qed
  qed
qed

text \<open>
  How many workers \<open>Teardown\<close> destroys when no \<open>Destroy\<close> fails. Every round takes one
  worker out of the pool and adds one to \<open>i\<close>, so the condition \<open>i < Avail()\<close> ends the
  loop after half of the workers, rounded up; the other half stays in the pool.
\<close>

lemma teardown_loop_count:
  "\<forall>w s. fst (destroy_impl (workerFactory e) w s) = None \<Longrightarrow>
   \<exists>r e' evs. teardown_loop i e = Some (r, e', evs)
     \<and> length (filter is_destroy evs) = (Pool_Avail (workerPool e) - i + 1) div 2
     \<and> Pool_Avail (workerPool e')
          = Pool_Avail (workerPool e) - (Pool_Avail (workerPool e) - i + 1) div 2"
proof (induction i e rule: teardown_loop.induct)
  case (1 i e)
  show ?case
  proof (cases "i < Pool_Avail (workerPool e)")
    case False
    then show ?thesis by (simp add: teardown_loop_stop split: option.splits)
  next
    case lt: True
    from Pool_Get_Some[OF lt] obtain w ws
      where it: "items (workerPool e) = w # ws"
        and g: "Pool_Get (workerPool e) = Some (w, (workerPool e)\<lparr>items := ws\<rparr>)"
      by blast
    obtain d fac where d: "Destroy (workerFactory e) w = (d, fac)"
      by (cases "Destroy (workerFactory e) w")
    from Destroy_impl[OF d] "1.prems" have dn: "d = None"
      and di: "destroy_impl fac = destroy_impl (workerFactory e)"
      by simp_all
    let ?e = "e\<lparr>workerPool := (workerPool e)\<lparr>items := ws\<rparr>, workerFactory := fac\<rparr>"
    from "1.prems" di have pre: "\<forall>w s. fst (destroy_impl (workerFactory ?e) w s) = None"
      by simp
    from "1.IH"[OF lt g refl d[symmetric] dn pre]
    obtain r e' evs where rec: "teardown_loop (i + 1) ?e = Some (r, e', evs)"
      and cnt: "length (filter is_destroy evs)
                  = (Pool_Avail (workerPool ?e) - (i + 1) + 1) div 2"
      and av: "Pool_Avail (workerPool e')
                 = Pool_Avail (workerPool ?e) - (Pool_Avail (workerPool ?e) - (i + 1) + 1) div 2"
      by blast
    from lt obtain m where m: "Pool_Avail (workerPool e) = i + 1 + m"
      by (metis add.commute add_Suc_right less_imp_Suc_add plus_1_eq_Suc)
    with it have a: "Pool_Avail (workerPool ?e) = i + m"
      by (simp add: Pool_Avail_def)
    have half: "(i + 1 + m - i + 1) div 2 = Suc (m div 2)"
      by simp
    from d dn have "Destroy (workerFactory e) w = (None, fac)" by simp
    from teardown_loop_next[OF lt g this] rec
    have res: "teardown_loop i e = Some (r, e', [EvGet w, EvDestroy w] @ evs)"
      by simp
    from cnt a
    have c: "length (filter is_destroy ([EvGet w, EvDestroy w] @ evs))
            = (Pool_Avail (workerPool e) - i + 1) div 2"
      unfolding m half by simp
    from av a
    have "Pool_Avail (workerPool e')
            = Pool_Avail (workerPool e) - (Pool_Avail (workerPool e) - i + 1) div 2"
      unfolding m half by simp
    with res c show ?thesis by simp
  qed
qed

lemma teardown_events_kinds:
  "filter (\<lambda>ev. \<not> is_teardown_event ev) evs = [] \<Longrightarrow>
     filter is_result evs = [] \<and> filter is_put evs = [] \<and> filter is_spawn evs = []"
proof (induction evs)
  case Nil
  then show ?case by simp
next
  case (Cons ev evs)
  then show ?case by (cases ev) (simp_all split: if_splits)
qed

lemma Teardown_props:
  "\<exists>r e' evs. Teardown e = Some (r, e', evs)
     \<and> filter (\<lambda>ev. \<not> is_teardown_event ev) evs = []
     \<and> capacity (workerPool e') = capacity (workerPool e)
     \<and> Pool_Avail (workerPool e') \<le> Pool_Avail (workerPool e)
     \<and> cancelContext e' = cancelContext e"
  unfolding Teardown_def by (rule teardown_loop_props)

lemmas eval_defs =
  Teardown_def teardown_loop.simps Pool_Avail_def Pool_Get_def Pool_Put_def
  Pool_Teardown_def Destroy_def plain_factory_def

text \<open>
  C2: on a pool with two available workers and a factory whose \<open>Destroy\<close> never fails,
  \<open>Teardown\<close> calls \<open>Destroy\<close> on the first worker only: after the first round \<open>i\<close> is 1
  and \<open>Avail()\<close> is 1, which ends the loop. It then tears the pool down and returns nil,
  with the second worker still in the pool and not destroyed: the factory has seen two
  calls of \<open>Create\<close> and one of \<open>Destroy\<close>.
\<close>

theorem Teardown_two_idle_destroys_one:
  "Teardown two_idle =
     Some (None,
           two_idle\<lparr>workerPool := (workerPool two_idle)\<lparr>items := [ok_worker 1]\<rparr>,
                    workerFactory := plain_factory\<lparr>fstate := (2, 1)\<rparr>\<rparr>,
           [EvGet (ok_worker 0), EvDestroy (ok_worker 0), EvPoolTeardown])"
  by (simp add: two_idle_def eval_defs)

subsection \<open>The execution unit\<close>

lemma task_deferred_props:
  "\<exists>pv e' rest. task_deferred w e = Some (pv, e', EvPut w # rest)
     \<and> filter (\<lambda>ev. \<not> is_teardown_event ev) rest = []
     \<and> capacity (workerPool e') = capacity (workerPool e)
     \<and> Pool_Avail (workerPool e') \<le> Suc (Pool_Avail (workerPool e))
     \<and> cancelContext e' = cancelContext e"
proof (cases "Pool_Put w (workerPool e)")
  case (Inr p)
  then show ?thesis
    by (auto simp: task_deferred_def Pool_Put_def Pool_Avail_def split: if_splits)
next
  case (Inl err)
  from Teardown_props[of e] obtain r e' evs where t: "Teardown e = Some (r, e', evs)"
    and p: "filter (\<lambda>ev. \<not> is_teardown_event ev) evs = []"
     "capacity (workerPool e') = capacity (workerPool e)"
     "Pool_Avail (workerPool e') \<le> Pool_Avail (workerPool e)"
     "cancelContext e' = cancelContext e"
    by blast
  from Inl t p show ?thesis
    by (auto simp add: task_deferred_def)
qed

lemma task_deferred_room:
  "length (items (workerPool e)) < capacity (workerPool e) \<Longrightarrow>
     task_deferred w e =
       Some (None, e\<lparr>workerPool := (workerPool e)\<lparr>items := items (workerPool e) @ [w]\<rparr>\<rparr>,
             [EvPut w])"
  by (simp add: task_deferred_def Pool_Put_def)

lemma task_body_shape:
  "\<exists>r. task_body w msg e = [EvExecute w msg, r] \<and> is_result r"
  by (cases "Execute w (cancelContext e) msg") (simp_all add: task_body_def)

lemma task_props:
  "\<exists>pv e' evs. task w msg e = Some (pv, e', evs)
     \<and> filter is_spawn evs = []
     \<and> capacity (workerPool e') = capacity (workerPool e)
     \<and> Pool_Avail (workerPool e') \<le> Suc (Pool_Avail (workerPool e))"
proof -
  from task_deferred_props[of w e] obtain pv e' rest
    where d: "task_deferred w e = Some (pv, e', EvPut w # rest)"
      and t: "filter (\<lambda>ev. \<not> is_teardown_event ev) rest = []"
      and p: "capacity (workerPool e') = capacity (workerPool e)"
         "Pool_Avail (workerPool e') \<le> Suc (Pool_Avail (workerPool e))"
    by blast
  from task_body_shape[of w msg e] obtain r
    where b: "task_body w msg e = [EvExecute w msg, r]" and r: "is_result r"
    by blast
  have "\<not> is_spawn r" using r by (cases r) simp_all
  with d b teardown_events_kinds[OF t] p show ?thesis
    by (simp add: task_def)
qed

text \<open>
  C3: a unit gives back worker 1 to a pool that is full, so \<open>Put\<close> fails with the error
  \<open>pool is full\<close>. \<open>Teardown\<close> is attempted and succeeds, and the unit panics with an
  error that wraps nil: the error that \<open>Put\<close> returned is not part of the panic value.
\<close>

theorem task_deferred_drops_put_error:
  "Pool_Put (ok_worker 1) (workerPool one_idle) = Inl (Err ''pool is full'')
   \<and> task_deferred (ok_worker 1) one_idle =
       Some (Some (Errorf ''failed to put worker back into pool'' None),
             one_idle\<lparr>workerPool := (workerPool one_idle)\<lparr>items := []\<rparr>,
                      workerFactory := plain_factory\<lparr>fstate := (1, 1)\<rparr>\<rparr>,
             [EvPut (ok_worker 1), EvGet (ok_worker 0), EvDestroy (ok_worker 0),
              EvPoolTeardown])"
  by (simp add: task_deferred_def one_idle_def eval_defs)

text \<open>
  C4: the execution unit of a task always runs to its end, and what it does is: one call
  of \<open>Execute\<close>, then exactly one write of a result (the output on the output channel or
  the error on the error channel), then one call of \<open>Put\<close> with the worker it was given.
  Whatever follows (the teardown after a failed \<open>Put\<close>) writes no result and calls no
  \<open>Put\<close>. So there is one result, never two and never none, one return of the worker,
  and the return comes after the write. If the pool has room, as it has while the worker
  is borrowed, nothing follows and the pool holds the worker once more.
\<close>

theorem task_one_result_then_put:
  "\<exists>pv e' r rest.
     task w msg e = Some (pv, e', [EvExecute w msg, r, EvPut w] @ rest)
     \<and> is_result r \<and> filter is_result rest = [] \<and> filter is_put rest = []
     \<and> (length (items (workerPool e)) < capacity (workerPool e) \<longrightarrow>
          pv = None \<and> rest = []
          \<and> workerPool e' = (workerPool e)\<lparr>items := items (workerPool e) @ [w]\<rparr>)"
proof -
  from task_deferred_props[of w e] obtain pv e' rest
    where d: "task_deferred w e = Some (pv, e', EvPut w # rest)"
      and t: "filter (\<lambda>ev. \<not> is_teardown_event ev) rest = []"
    by blast
  from task_body_shape[of w msg e] obtain r
    where b: "task_body w msg e = [EvExecute w msg, r]" and r: "is_result r"
    by blast
  from d b have tk: "task w msg e = Some (pv, e', [EvExecute w msg, r, EvPut w] @ rest)"
    by (simp add: task_def)
  have "length (items (workerPool e)) < capacity (workerPool e) \<longrightarrow>
          pv = None \<and> rest = []
          \<and> workerPool e' = (workerPool e)\<lparr>items := items (workerPool e) @ [w]\<rparr>"
    using d by (auto simp: task_deferred_room)
  with tk r teardown_events_kinds[OF t] show ?thesis by blast
qed

theorem task_one_result_then_put_witness:
  "length (items (workerPool one_borrowed)) < capacity (workerPool one_borrowed)
   \<and> task (ok_worker 0) 5 one_borrowed =
       Some (None,
             one_borrowed\<lparr>workerPool := (workerPool one_borrowed)\<lparr>items := [ok_worker 0]\<rparr>\<rparr>,
             [EvExecute (ok_worker 0) 5, EvSendOut 6, EvPut (ok_worker 0)])
   \<and> is_result (EvSendOut 6 :: (nat, nat) event)"
proof -
  have room: "length (items (workerPool one_borrowed)) < capacity (workerPool one_borrowed)"
    by (simp add: one_borrowed_def)
  have ev: "task (ok_worker 0) 5 one_borrowed =
       Some (None,
             one_borrowed\<lparr>workerPool := (workerPool one_borrowed)\<lparr>items := [ok_worker 0]\<rparr>\<rparr>,
             [EvExecute (ok_worker 0) 5, EvSendOut 6, EvPut (ok_worker 0)])"
    by (simp add: task_def task_body_def task_deferred_def Pool_Put_def one_borrowed_def
          ok_worker_def)
  from task_one_result_then_put [of "ok_worker 0" 5 one_borrowed] room ev
  show ?thesis by auto
qed

text \<open>
  C6: when \<open>Execute\<close> returns an error, the unit writes that error to the error channel,
  writes nothing else (so no output), and then calls \<open>Put\<close> with the worker. If the pool
  has room, as it has while the worker is borrowed, the unit ends without a panic and the
  worker is in the pool again.
\<close>

theorem task_execute_error:
  assumes "Execute w (cancelContext e) msg = Inl err"
  shows "\<exists>pv e' rest.
     task w msg e = Some (pv, e', [EvExecute w msg, EvSendErr err, EvPut w] @ rest)
     \<and> filter is_result rest = []
     \<and> (length (items (workerPool e)) < capacity (workerPool e) \<longrightarrow>
          pv = None \<and> rest = []
          \<and> workerPool e' = (workerPool e)\<lparr>items := items (workerPool e) @ [w]\<rparr>)"
proof -
  from task_deferred_props[of w e] obtain pv e' rest
    where d: "task_deferred w e = Some (pv, e', EvPut w # rest)"
      and t: "filter (\<lambda>ev. \<not> is_teardown_event ev) rest = []"
    by blast
  from assms have b: "task_body w msg e = [EvExecute w msg, EvSendErr err]"
    by (simp add: task_body_def)
  from d b have tk: "task w msg e = Some (pv, e', [EvExecute w msg, EvSendErr err, EvPut w] @ rest)"
    by (simp add: task_def)
  have "length (items (workerPool e)) < capacity (workerPool e) \<longrightarrow>
          pv = None \<and> rest = []
          \<and> workerPool e' = (workerPool e)\<lparr>items := items (workerPool e) @ [w]\<rparr>"
    using d by (auto simp: task_deferred_room)
  with tk teardown_events_kinds[OF t] show ?thesis by blast
qed

theorem task_execute_error_witness:
  "Execute (failing_worker 0) (cancelContext one_borrowed) 5 = Inl (Err ''task failed'')
   \<and> length (items (workerPool one_borrowed)) < capacity (workerPool one_borrowed)
   \<and> task (failing_worker 0) 5 one_borrowed =
       Some (None,
             one_borrowed\<lparr>workerPool :=
               (workerPool one_borrowed)\<lparr>items := [failing_worker 0]\<rparr>\<rparr>,
             [EvExecute (failing_worker 0) 5, EvSendErr (Err ''task failed''),
              EvPut (failing_worker 0)])"
proof -
  have h: "Execute (failing_worker 0) (cancelContext one_borrowed) (5::nat)
             = (Inl (Err ''task failed'') :: error + nat)"
    by (simp add: failing_worker_def)
  have room: "length (items (workerPool one_borrowed)) < capacity (workerPool one_borrowed)"
    by (simp add: one_borrowed_def)
  have ev: "task (failing_worker 0) 5 one_borrowed =
       Some (None,
             one_borrowed\<lparr>workerPool :=
               (workerPool one_borrowed)\<lparr>items := [failing_worker 0]\<rparr>\<rparr>,
             [EvExecute (failing_worker 0) 5, EvSendErr (Err ''task failed''),
              EvPut (failing_worker 0)])"
    by (simp add: task_def task_body_def task_deferred_def Pool_Put_def one_borrowed_def
          failing_worker_def)
  from task_execute_error [OF h] h room ev
  show ?thesis by auto
qed

subsection \<open>The dispatch loop\<close>

lemma teardown_and_return_props:
  "\<exists>r e' evs. Teardown (exec s) = Some (r, e', evs)
     \<and> teardown_and_return pre s =
         Some (s\<lparr>exec := e', pc := Exited,
                 panicked := (if r \<noteq> None then Some (Errorf ''failed to teardown executor'' r)
                              else None),
                 trace := trace s @ pre @ evs\<rparr>)
     \<and> filter (\<lambda>ev. \<not> is_teardown_event ev) evs = []
     \<and> capacity (workerPool e') = capacity (workerPool (exec s))
     \<and> Pool_Avail (workerPool e') \<le> Pool_Avail (workerPool (exec s))"
proof -
  from Teardown_props[of "exec s"] obtain r e' evs
    where t: "Teardown (exec s) = Some (r, e', evs)"
      and p: "filter (\<lambda>ev. \<not> is_teardown_event ev) evs = []"
        "capacity (workerPool e') = capacity (workerPool (exec s))"
        "Pool_Avail (workerPool e') \<le> Pool_Avail (workerPool (exec s))"
    by blast
  then show ?thesis by (simp add: teardown_and_return_def)
qed

lemma get_worker_props:
  "capacity (workerPool (exec (get_worker msg s))) = capacity (workerPool (exec s))
   \<and> length (inflight (get_worker msg s)) + Pool_Avail (workerPool (exec (get_worker msg s)))
       = length (inflight s) + Pool_Avail (workerPool (exec s))"
  by (simp add: get_worker_def Pool_Get_def Pool_Avail_def split: list.splits)

lemma finish_props:
  assumes "k < length (inflight s)"
  shows "\<exists>s'. finish k s = Some s'
     \<and> capacity (workerPool (exec s')) = capacity (workerPool (exec s))
     \<and> length (inflight s') + Pool_Avail (workerPool (exec s'))
         \<le> length (inflight s) + Pool_Avail (workerPool (exec s))
     \<and> pc s' = pc s
     \<and> filter is_spawn (trace s') = filter is_spawn (trace s)"
proof -
  obtain w msg where wm: "inflight s ! k = (w, msg)" by (cases "inflight s ! k")
  from task_props[of w msg "exec s"] obtain pv e' evs
    where t: "task w msg (exec s) = Some (pv, e', evs)"
      and p: "filter is_spawn evs = []"
        "capacity (workerPool e') = capacity (workerPool (exec s))"
        "Pool_Avail (workerPool e') \<le> Suc (Pool_Avail (workerPool (exec s)))"
    by blast
  have len: "length (take k (inflight s) @ drop (Suc k) (inflight s)) = length (inflight s) - 1"
    using assms by simp
  from wm t p len assms show ?thesis
    by (simp add: finish_def)
qed

lemma step_props:
  "\<exists>s'. step a s = Some s'
     \<and> capacity (workerPool (exec s')) = capacity (workerPool (exec s))
     \<and> length (inflight s') + Pool_Avail (workerPool (exec s'))
         \<le> length (inflight s) + Pool_Avail (workerPool (exec s))
     \<and> (pc s = Exited \<longrightarrow> pc s' = Exited \<and> filter is_spawn (trace s') = filter is_spawn (trace s))"
proof (cases "panicked s \<noteq> None")
  case True
  then show ?thesis by (simp add: step_def)
next
  case np: False
  show ?thesis
  proof (cases a)
    case (Cancel err)
    with np show ?thesis by (simp add: step_def split: option.splits)
  next
    case SelectDone
    show ?thesis
    proof (cases "pc s")
      case AtSelect
      show ?thesis
      proof (cases "cancelContext (exec s)")
        case None
        with np SelectDone AtSelect show ?thesis by (simp add: step_def)
      next
        case (Some cerr)
        from teardown_and_return_props[of s "[EvSendErr cerr]"] np SelectDone AtSelect Some
        show ?thesis by (auto simp add: step_def on_done_def)
      qed
    qed (use np SelectDone in \<open>simp_all add: step_def\<close>)
  next
    case (SelectRecv msg ok)
    show ?thesis
    proof (cases "pc s")
      case AtSelect
      show ?thesis
      proof (cases ok)
        case True
        from teardown_and_return_props[of s "[]"] np SelectRecv AtSelect True
        show ?thesis by (auto simp add: step_def on_recv_def)
      next
        case False
        from get_worker_props[of msg s] np SelectRecv AtSelect False
        show ?thesis by (simp add: step_def on_recv_def)
      qed
    qed (use np SelectRecv in \<open>simp_all add: step_def\<close>)
  next
    case Resume
    show ?thesis
    proof (cases "pc s")
      case (AtGet msg)
      from get_worker_props[of msg s] np Resume AtGet
      show ?thesis by (simp add: step_def)
    qed (use np Resume in \<open>simp_all add: step_def\<close>)
  next
    case (Finish k)
    show ?thesis
    proof (cases "k < length (inflight s)")
      case True
      from finish_props[OF True] np Finish True show ?thesis
        by (auto simp add: step_def)
    next
      case False
      with np Finish show ?thesis by (simp add: step_def)
    qed
  next
    case CallTeardown
    from Teardown_props[of "exec s"] obtain r e' evs
      where t: "Teardown (exec s) = Some (r, e', evs)"
        and k: "filter (\<lambda>ev. \<not> is_teardown_event ev) evs = []"
        and p: "capacity (workerPool e') = capacity (workerPool (exec s))"
          "Pool_Avail (workerPool e') \<le> Pool_Avail (workerPool (exec s))"
      by blast
    from np CallTeardown t p teardown_events_kinds[OF k] show ?thesis
      by (simp add: step_def)
  qed
qed

lemma run_props:
  "\<exists>s'. run s acts = Some s'
     \<and> capacity (workerPool (exec s')) = capacity (workerPool (exec s))
     \<and> length (inflight s') + Pool_Avail (workerPool (exec s'))
         \<le> length (inflight s) + Pool_Avail (workerPool (exec s))
     \<and> (pc s = Exited \<longrightarrow> pc s' = Exited \<and> filter is_spawn (trace s') = filter is_spawn (trace s))"
proof (induction acts arbitrary: s)
  case Nil
  show ?case by simp
next
  case (Cons a acts)
  from step_props[of a s] obtain s1 where s1: "step a s = Some s1"
    and p1: "capacity (workerPool (exec s1)) = capacity (workerPool (exec s))"
      "length (inflight s1) + Pool_Avail (workerPool (exec s1))
         \<le> length (inflight s) + Pool_Avail (workerPool (exec s))"
      "pc s = Exited \<longrightarrow> pc s1 = Exited \<and> filter is_spawn (trace s1) = filter is_spawn (trace s)"
    by blast
  from Cons.IH[of s1] obtain s' where s': "run s1 acts = Some s'"
    and p2: "capacity (workerPool (exec s')) = capacity (workerPool (exec s1))"
      "length (inflight s') + Pool_Avail (workerPool (exec s'))
         \<le> length (inflight s1) + Pool_Avail (workerPool (exec s1))"
      "pc s1 = Exited \<longrightarrow> pc s' = Exited \<and> filter is_spawn (trace s') = filter is_spawn (trace s1)"
    by blast
  from s1 s' have "run s (a # acts) = Some s'" by simp
  with p1 p2 show ?case by auto
qed


text \<open>
  C1: the loop of a freshly started executor with one idle worker. When the receive
  reports that the input channel is closed (zero value, \<open>ok\<close> false), the loop does not
  tear down: it takes the worker from the pool, starts a unit on the zero value and goes
  back to its \<open>select\<close>. When a task value (here 7) is received, the loop starts no unit:
  it performs \<open>Teardown\<close> and exits.
\<close>

theorem Run_receive_flag_inverted:
  "step (recv_closed 0) (Run one_idle) =
     Some \<lparr>exec = one_idle\<lparr>workerPool := (workerPool one_idle)\<lparr>items := []\<rparr>\<rparr>,
           pc = AtSelect, inflight = [(ok_worker 0, 0)], panicked = None,
           trace = [EvGet (ok_worker 0), EvSpawn (ok_worker 0) 0]\<rparr>
   \<and> step (recv_value 7) (Run one_idle) =
     Some \<lparr>exec = one_idle\<lparr>workerPool := (workerPool one_idle)\<lparr>items := []\<rparr>,
                            workerFactory := plain_factory\<lparr>fstate := (1, 1)\<rparr>\<rparr>,
           pc = Exited, inflight = [], panicked = None,
           trace = [EvGet (ok_worker 0), EvDestroy (ok_worker 0), EvPoolTeardown]\<rparr>"
  by (simp add: step_def recv_closed_def recv_value_def Run_def on_recv_def get_worker_def
        teardown_and_return_def one_idle_def eval_defs)

text \<open>
  C5: the loop is in its \<open>select\<close> and the context is cancelled with error \<open>cerr\<close>. When
  the \<open>select\<close> takes the cancellation case, the loop writes \<open>cerr\<close> to the error channel,
  then runs \<open>Teardown\<close>, whose events follow and contain no further write, and then is
  gone: it has returned, or has panicked because \<open>Teardown\<close> failed. Whatever happens
  afterwards, the loop stays gone and no further task is started.
\<close>

theorem cancellation_shutdown:
  assumes "panicked s = None" and "pc s = AtSelect"
    and "cancelContext (exec s) = Some cerr"
  shows "\<exists>r e' evs s'.
     Teardown (exec s) = Some (r, e', evs)
     \<and> step SelectDone s = Some s'
     \<and> trace s' = trace s @ [EvSendErr cerr] @ evs
     \<and> filter is_result evs = []
     \<and> pc s' = Exited
     \<and> panicked s' = (if r \<noteq> None then Some (Errorf ''failed to teardown executor'' r)
                       else None)
     \<and> (\<forall>acts. \<exists>s''. run s' acts = Some s'' \<and> pc s'' = Exited
            \<and> filter is_spawn (trace s'') = filter is_spawn (trace s'))"
proof -
  from teardown_and_return_props[of s "[EvSendErr cerr]"] obtain r e' evs
    where t: "Teardown (exec s) = Some (r, e', evs)"
      and ret: "teardown_and_return [EvSendErr cerr] s =
         Some (s\<lparr>exec := e', pc := Exited,
                 panicked := (if r \<noteq> None then Some (Errorf ''failed to teardown executor'' r)
                              else None),
                 trace := trace s @ [EvSendErr cerr] @ evs\<rparr>)"
      and k: "filter (\<lambda>ev. \<not> is_teardown_event ev) evs = []"
    by blast
  let ?s' = "s\<lparr>exec := e', pc := Exited,
                 panicked := (if r \<noteq> None then Some (Errorf ''failed to teardown executor'' r)
                              else None),
                 trace := trace s @ [EvSendErr cerr] @ evs\<rparr>"
  from assms ret have st: "step SelectDone s = Some ?s'"
    by (simp add: step_def on_done_def)
  have after: "\<exists>s''. run ?s' acts = Some s'' \<and> pc s'' = Exited
            \<and> filter is_spawn (trace s'') = filter is_spawn (trace ?s')" for acts
    using run_props[of ?s' acts] by auto
  from t st teardown_events_kinds[OF k] after show ?thesis
    by (intro exI[of _ r] exI[of _ e'] exI[of _ evs] exI[of _ ?s']) simp
qed

theorem cancellation_shutdown_witness:
  "panicked cancelled_run = None \<and> pc cancelled_run = AtSelect
   \<and> cancelContext (exec cancelled_run) = Some (Err ''context canceled'')
   \<and> step SelectDone cancelled_run =
       Some \<lparr>exec = one_idle\<lparr>workerPool := (workerPool one_idle)\<lparr>items := []\<rparr>,
                             cancelContext := Some (Err ''context canceled''),
                             workerFactory := plain_factory\<lparr>fstate := (1, 1)\<rparr>\<rparr>,
             pc = Exited, inflight = [], panicked = None,
             trace = [EvSendErr (Err ''context canceled''), EvGet (ok_worker 0),
                      EvDestroy (ok_worker 0), EvPoolTeardown]\<rparr>
   \<and> Teardown (exec cancelled_run) =
       Some (None,
             one_idle\<lparr>workerPool := (workerPool one_idle)\<lparr>items := []\<rparr>,
                      cancelContext := Some (Err ''context canceled''),
                      workerFactory := plain_factory\<lparr>fstate := (1, 1)\<rparr>\<rparr>,
             [EvGet (ok_worker 0), EvDestroy (ok_worker 0), EvPoolTeardown])"
proof -
  have h: "panicked cancelled_run = None" "pc cancelled_run = AtSelect"
    "cancelContext (exec cancelled_run) = Some (Err ''context canceled'')"
    by (simp_all add: cancelled_run_def Run_def)
  have td: "Teardown (exec cancelled_run) =
       Some (None,
             one_idle\<lparr>workerPool := (workerPool one_idle)\<lparr>items := []\<rparr>,
                      cancelContext := Some (Err ''context canceled''),
                      workerFactory := plain_factory\<lparr>fstate := (1, 1)\<rparr>\<rparr>,
             [EvGet (ok_worker 0), EvDestroy (ok_worker 0), EvPoolTeardown])"
    by (simp add: cancelled_run_def Run_def one_idle_def eval_defs)
  from cancellation_shutdown [OF h] td obtain s'
    where st: "step SelectDone cancelled_run = Some s'"
      and tr: "trace s' = trace cancelled_run @ [EvSendErr (Err ''context canceled'')]
                 @ [EvGet (ok_worker 0), EvDestroy (ok_worker 0), EvPoolTeardown]"
      and p: "pc s' = Exited" "panicked s' = None"
    by auto
  have "step SelectDone cancelled_run =
       Some \<lparr>exec = one_idle\<lparr>workerPool := (workerPool one_idle)\<lparr>items := []\<rparr>,
                             cancelContext := Some (Err ''context canceled''),
                             workerFactory := plain_factory\<lparr>fstate := (1, 1)\<rparr>\<rparr>,
             pc = pc s', inflight = [], panicked = panicked s', trace = trace s'\<rparr>"
    unfolding tr p
    by (simp add: cancelled_run_def step_def Run_def on_done_def teardown_and_return_def
          one_idle_def eval_defs)
  with h td tr p show ?thesis by (simp add: cancelled_run_def Run_def)
qed

text \<open>
  C9: an executor that \<open>New\<close> has built is started, and the loop and the execution units
  take steps in any order. In every state that can be reached, the number of units in
  flight, each of which holds a borrowed worker, is at most the worker count, which is
  the capacity of the pool. When that many units are in flight the pool is empty, so a
  loop that has received a further message starts no unit: it waits in \<open>Get\<close> until a
  unit has given its worker back.
\<close>

theorem Run_at_most_capacity_in_flight:
  assumes "New ctx fac workerCount = ((Some e, None), fac', evs)"
  shows "\<exists>s. run (Run e) acts = Some s
     \<and> capacity (workerPool (exec s)) = unat workerCount
     \<and> length (inflight s) \<le> unat workerCount
     \<and> (length (inflight s) = unat workerCount \<longrightarrow> get_worker msg s = s\<lparr>pc := AtGet msg\<rparr>)"
proof -
  from New_success[OF assms]
  have init: "capacity (workerPool (exec (Run e))) = unat workerCount"
    "length (inflight (Run e)) + Pool_Avail (workerPool (exec (Run e))) = unat workerCount"
    by (simp_all add: Run_def)
  from run_props[of "Run e" acts] obtain s where r: "run (Run e) acts = Some s"
    and c: "capacity (workerPool (exec s)) = capacity (workerPool (exec (Run e)))"
    and b: "length (inflight s) + Pool_Avail (workerPool (exec s))
              \<le> length (inflight (Run e)) + Pool_Avail (workerPool (exec (Run e)))"
    by blast
  have "get_worker msg s = s\<lparr>pc := AtGet msg\<rparr>" if "length (inflight s) = unat workerCount"
  proof -
    from that b init have "items (workerPool (exec s)) = []"
      by (simp add: Pool_Avail_def)
    then show ?thesis by (simp add: get_worker_def Pool_Get_def)
  qed
  with r c b init show ?thesis by auto
qed

theorem Run_at_most_capacity_in_flight_witness:
  "New None plain_factory 2 =
     ((Some two_idle, None), plain_factory\<lparr>fstate := (2, 0)\<rparr>,
      [EvCreate (Inr (ok_worker 0)), EvPut (ok_worker 0),
       EvCreate (Inr (ok_worker 1)), EvPut (ok_worker 1)])
   \<and> run (Run two_idle) [recv_closed 0, recv_closed 0, recv_closed 0] =
       Some \<lparr>exec = two_idle\<lparr>workerPool := (workerPool two_idle)\<lparr>items := []\<rparr>\<rparr>,
             pc = AtGet 0, inflight = [(ok_worker 0, 0), (ok_worker 1, 0)],
             panicked = None,
             trace = [EvGet (ok_worker 0), EvSpawn (ok_worker 0) 0,
                      EvGet (ok_worker 1), EvSpawn (ok_worker 1) 0]\<rparr>
   \<and> get_worker 0
        \<lparr>exec = two_idle\<lparr>workerPool := (workerPool two_idle)\<lparr>items := []\<rparr>\<rparr>,
         pc = AtGet 0, inflight = [(ok_worker 0, 0), (ok_worker 1, 0)],
         panicked = None,
         trace = [EvGet (ok_worker 0), EvSpawn (ok_worker 0) 0,
                  EvGet (ok_worker 1), EvSpawn (ok_worker 1) 0]\<rparr> =
       \<lparr>exec = two_idle\<lparr>workerPool := (workerPool two_idle)\<lparr>items := []\<rparr>\<rparr>,
        pc = AtGet 0, inflight = [(ok_worker 0, 0), (ok_worker 1, 0)],
        panicked = None,
        trace = [EvGet (ok_worker 0), EvSpawn (ok_worker 0) 0,
                 EvGet (ok_worker 1), EvSpawn (ok_worker 1) 0]\<rparr>"
proof -
  let ?s = "\<lparr>exec = two_idle\<lparr>workerPool := (workerPool two_idle)\<lparr>items := []\<rparr>\<rparr>,
             pc = AtGet 0, inflight = [(ok_worker 0, 0), (ok_worker 1, 0)],
             panicked = None,
             trace = [EvGet (ok_worker 0), EvSpawn (ok_worker 0) 0,
                      EvGet (ok_worker 1), EvSpawn (ok_worker 1) 0]\<rparr>"
  have r: "run (Run two_idle) [recv_closed 0, recv_closed 0, recv_closed 0] = Some ?s"
    by (simp add: step_def recv_closed_def Run_def on_recv_def get_worker_def two_idle_def Pool_Get_def)
  have full: "length (inflight ?s) = unat (2 :: 16 word)"
    by simp
  from Run_at_most_capacity_in_flight
         [OF New_plain_factory, of "[recv_closed 0, recv_closed 0, recv_closed 0]" 0]
  have "length (inflight ?s) = unat (2 :: 16 word) \<longrightarrow> get_worker 0 ?s = ?s\<lparr>pc := AtGet 0\<rparr>"
    unfolding r by simp
  with full have "get_worker 0 ?s = ?s\<lparr>pc := AtGet 0\<rparr>" by blast
  with r New_plain_factory show ?thesis by simp
qed

end
